theory Spec2Isabelle
  imports Main
begin

section \<open>Python values and exceptions\<close>

text \<open>
  The helpers of \<^verbatim>\<open>kerashelper.py\<close> handle arbitrary Python values. The model keeps
  the kinds of value the helpers can tell apart: \<^verbatim>\<open>None\<close>, integers, strings, lists,
  tuples, and instances of a class. An instance carries its call behaviour (when it has a
  \<^verbatim>\<open>__call__\<close>) and its attributes in declaration order. \<open>PObject\<close> is an instance
  of a class that derives from no built-in container or scalar type; \<open>PSubclass\<close> is an
  instance of a subclass of a built-in type (of \<^verbatim>\<open>list\<close> or \<^verbatim>\<open>tuple\<close>, say): it
  holds the built-in value it extends, and adds attributes and possibly a call behaviour,
  overriding nothing. The type parameter \<open>'c\<close> is the type of call behaviours; for a
  keras layer it is a function on tensors that may raise.
\<close>

datatype 'c pyval =
    PNone
  | PInt int
  | PStr string
  | PList "'c pyval list"
  | PTuple "'c pyval list"
  | PObject "'c option" "(string \<times> 'c pyval) list"
  | PSubclass "'c pyval" "'c option" "(string \<times> 'c pyval) list"

text \<open>
  Exceptions are values. \<open>Raised\<close> stands for whatever an external constructor or layer
  raises by itself; the helpers never catch or wrap it.
\<close>

datatype pyerr =
    ValueError string
  | IndexError
  | TypeError
  | AttributeError
  | InvalidReference
  | Raised string

type_synonym 't callable = "'t \<Rightarrow> pyerr + 't"

text \<open>
  \<^verbatim>\<open>obj.attr\<close> for an attribute name that no built-in type defines (such as
  \<^verbatim>\<open>layers\<close>): only an instance of a class can have it, also one that derives from a
  built-in type.
\<close>

fun py_getattr :: "'c pyval \<Rightarrow> string \<Rightarrow> pyerr + 'c pyval" where
  "py_getattr (PObject c attrs) a =
     (case map_of attrs a of Some v \<Rightarrow> Inr v | None \<Rightarrow> Inl AttributeError)"
| "py_getattr (PSubclass base c attrs) a =
     (case map_of attrs a of Some v \<Rightarrow> Inr v | None \<Rightarrow> py_getattr base a)"
| "py_getattr _ a = Inl AttributeError"

text \<open>
  \<^verbatim>\<open>isinstance(v, list)\<close>: true of a list and of an instance of a subclass of
  \<^verbatim>\<open>list\<close>.
\<close>

fun isinstance_list :: "'c pyval \<Rightarrow> bool" where
  "isinstance_list (PList xs) = True"
| "isinstance_list (PSubclass base c attrs) = isinstance_list base"
| "isinstance_list _ = False"

text \<open>\<^verbatim>\<open>for x in v\<close>: the elements a value yields when iterated, or \<^verbatim>\<open>TypeError\<close>.\<close>

fun py_iter :: "'c pyval \<Rightarrow> pyerr + 'c pyval list" where
  "py_iter (PList xs) = Inr xs"
| "py_iter (PTuple xs) = Inr xs"
| "py_iter (PStr s) = Inr (map (\<lambda>ch. PStr [ch]) s)"
| "py_iter (PSubclass base c attrs) = py_iter base"
| "py_iter _ = Inl TypeError"

text \<open>\<^verbatim>\<open>layer(tensor)\<close>: calling a value that has no \<^verbatim>\<open>__call__\<close> raises \<^verbatim>\<open>TypeError\<close>.\<close>

fun py_call :: "('t callable) pyval \<Rightarrow> 't \<Rightarrow> pyerr + 't" where
  "py_call (PObject (Some f) attrs) x = f x"
| "py_call (PSubclass base (Some f) attrs) x = f x"
| "py_call _ x = Inl TypeError"

section \<open>\<^verbatim>\<open>call_layers\<close>\<close>

text \<open>
  \<^verbatim>\<open>
  def call_layers(layers, tensor):
      for layer in layers:
          tensor = layer(tensor)
      return tensor
  \<close>
  The loop body, run over the elements in order; an exception leaves the loop.
\<close>

fun call_loop :: "('t callable) pyval list \<Rightarrow> 't \<Rightarrow> pyerr + 't" where
  "call_loop [] tensor = Inr tensor"
| "call_loop (layer # rest) tensor =
     (case py_call layer tensor of
        Inl e \<Rightarrow> Inl e
      | Inr tensor' \<Rightarrow> call_loop rest tensor')"

definition call_layers :: "('t callable) pyval \<Rightarrow> 't \<Rightarrow> pyerr + 't" where
  "call_layers ls tensor =
     (case py_iter ls of
        Inl e \<Rightarrow> Inl e
      | Inr elems \<Rightarrow> call_loop elems tensor)"

section \<open>\<^verbatim>\<open>LayerStack\<close>\<close>

record 't LayerStack =
  layers :: "('t callable) pyval"

definition must_be_list_msg :: string where
  "must_be_list_msg = ''`keras_layers` must be a list or a keras Model instance.''"

text \<open>
  \<^verbatim>\<open>
  def __init__(self, keras_layers):
      try:
          keras_layers = keras_layers.layers
      except:
          pass
      if not isinstance(keras_layers, list):
          raise ValueError("`keras_layers` must be a list or a keras Model instance.")
      self.layers = keras_layers
  \<close>
\<close>

definition LayerStack_init :: "('t callable) pyval \<Rightarrow> pyerr + 't LayerStack" where
  "LayerStack_init keras_layers =
     (let keras_layers' =
            (case py_getattr keras_layers ''layers'' of
               Inr v \<Rightarrow> v
             | Inl e \<Rightarrow> keras_layers)
      in if \<not> isinstance_list keras_layers'
         then Inl (ValueError must_be_list_msg)
         else Inr \<lparr>layers = keras_layers'\<rparr>)"

text \<open>\<^verbatim>\<open>def __call__(self, tensor): return call_layers(self.layers, tensor)\<close>\<close>

definition LayerStack_call :: "'t LayerStack \<Rightarrow> 't \<Rightarrow> pyerr + 't" where
  "LayerStack_call self tensor = call_layers (layers self) tensor"

text \<open>
  \<^verbatim>\<open>LayerStack(keras_layers)(tensor)\<close>: construction followed by one invocation. A failed
  construction produces no stack, so its exception is the outcome.
\<close>

definition stack_invoke :: "('t callable) pyval \<Rightarrow> 't \<Rightarrow> pyerr + 't" where
  "stack_invoke keras_layers tensor =
     (case LayerStack_init keras_layers of
        Inl e \<Rightarrow> Inl e
      | Inr stack \<Rightarrow> LayerStack_call stack tensor)"

section \<open>\<^verbatim>\<open>repeat_layers\<close>\<close>

text \<open>
  \<^verbatim>\<open>str(k)\<close> for an integer: its decimal digits, with a minus sign when negative.
\<close>

definition digit_char :: "nat \<Rightarrow> char" where
  "digit_char d = ''0123456789'' ! d"

fun str_nat :: "nat \<Rightarrow> string" where
  "str_nat n = (if n < 10 then [digit_char n] else str_nat (n div 10) @ [digit_char (n mod 10)])"

declare str_nat.simps [simp del]

definition str_int :: "int \<Rightarrow> string" where
  "str_int k = (if k < 0 then CHR ''-'' # str_nat (nat (- k)) else str_nat (nat k))"

text \<open>
  The keyword dictionary \<^verbatim>\<open>**kwargs\<close> of the callee. By the signature
  \<^verbatim>\<open>repeat_layers(layer_class, *args, name=None, name_start_index=1, **kwargs)\<close> the
  keywords \<^verbatim>\<open>name\<close> and \<^verbatim>\<open>name_start_index\<close> are bound to their own parameters
  and never arrive in \<^verbatim>\<open>kwargs\<close>. The model takes \<^verbatim>\<open>name\<close> as an optional string
  (\<^verbatim>\<open>None\<close> or a \<^verbatim>\<open>str\<close>), \<^verbatim>\<open>name_start_index\<close> as an integer and every
  positional argument as a list, as the docstring asks.
\<close>

type_synonym 'c kwargs = "string \<rightharpoonup> 'c pyval"

text \<open>\<^verbatim>\<open>xs[i]\<close> for a list and a non-negative index.\<close>

definition py_index :: "'a list \<Rightarrow> nat \<Rightarrow> pyerr + 'a" where
  "py_index xs i = (if i < length xs then Inr (xs ! i) else Inl IndexError)"

text \<open>
  \<^verbatim>\<open>
  arg = []
  for j in range(len(args)):
      arg.append(args[j][i])
  \<close>
  \<^verbatim>\<open>args\<close> is a tuple, so visiting \<^verbatim>\<open>args[j]\<close> for \<open>j = 0, 1, ...\<close> is a traversal
  in order; the third parameter is \<^verbatim>\<open>arg\<close> as built so far.
\<close>

fun collect_args :: "'a list list \<Rightarrow> nat \<Rightarrow> 'a list \<Rightarrow> pyerr + 'a list" where
  "collect_args [] i arg = Inr arg"
| "collect_args (a # rest) i arg =
     (case py_index a i of
        Inl e \<Rightarrow> Inl e
      | Inr v \<Rightarrow> collect_args rest i (arg @ [v]))"

text \<open>
  \<^verbatim>\<open>
  if name:
      kwargs["name"] = name + "_" + str(name_start_index + i)
  \<close>
  \<^verbatim>\<open>None\<close> and the empty string are both false.
\<close>

definition set_name :: "string option \<Rightarrow> int \<Rightarrow> nat \<Rightarrow> 'c kwargs \<Rightarrow> 'c kwargs" where
  "set_name name name_start_index i kwargs =
     (case name of
        None \<Rightarrow> kwargs
      | Some s \<Rightarrow>
          if s \<noteq> []
          then kwargs(''name'' \<mapsto> PStr (s @ ''_'' @ str_int (name_start_index + int i)))
          else kwargs)"

text \<open>The value of the parameter \<^verbatim>\<open>name\<close> as a Python value.\<close>

definition name_value :: "string option \<Rightarrow> 'c pyval" where
  "name_value name = (case name of None \<Rightarrow> PNone | Some s \<Rightarrow> PStr s)"

text \<open>
  \<^verbatim>\<open>
  for i in range(len(args[0])):
      arg = [] ...
      if name: ...
      layers.append(layer_class(*arg, **kwargs))
      kwargs.pop("input_shape", None)
  return layers
  \<close>
  The loop runs over the indices still to visit, with the dictionary \<^verbatim>\<open>kwargs\<close> and the
  list \<^verbatim>\<open>layers\<close> built so far (\<open>acc\<close>) as its state. The constructor
  \<^verbatim>\<open>layer_class\<close> is external: it receives the positional arguments and the keyword
  dictionary, and returns an object or raises.
\<close>

fun repeat_loop ::
  "('c pyval list \<Rightarrow> 'c kwargs \<Rightarrow> pyerr + 'o) \<Rightarrow> 'c pyval list list \<Rightarrow> string option \<Rightarrow> int
   \<Rightarrow> nat list \<Rightarrow> 'c kwargs \<Rightarrow> 'o list \<Rightarrow> pyerr + 'o list" where
  "repeat_loop layer_class args name name_start_index [] kwargs acc = Inr acc"
| "repeat_loop layer_class args name name_start_index (i # is) kwargs acc =
     (case collect_args args i [] of
        Inl e \<Rightarrow> Inl e
      | Inr arg \<Rightarrow>
          let kwargs' = set_name name name_start_index i kwargs
          in (case layer_class arg kwargs' of
                Inl e \<Rightarrow> Inl e
              | Inr layer \<Rightarrow>
                  repeat_loop layer_class args name name_start_index is
                    (kwargs'(''input_shape'' := None)) (acc @ [layer])))"

text \<open>
  \<^verbatim>\<open>
  layers = []
  if not args:
      return [layer_class(name=name, **kwargs)]
  for i in range(len(args[0])): ...
  \<close>
  A call \<^verbatim>\<open>f(name=name, **kwargs)\<close> raises \<^verbatim>\<open>TypeError\<close> when \<^verbatim>\<open>kwargs\<close> holds
  the key \<^verbatim>\<open>name\<close> as well.
\<close>

definition repeat_layers ::
  "('c pyval list \<Rightarrow> 'c kwargs \<Rightarrow> pyerr + 'o) \<Rightarrow> 'c pyval list list \<Rightarrow> string option \<Rightarrow> int
   \<Rightarrow> 'c kwargs \<Rightarrow> pyerr + 'o list" where
  "repeat_layers layer_class args name name_start_index kwargs =
     (case args of
        [] \<Rightarrow>
          if kwargs ''name'' \<noteq> None then Inl TypeError
          else (case layer_class [] (kwargs(''name'' \<mapsto> name_value name)) of
                  Inl e \<Rightarrow> Inl e
                | Inr layer \<Rightarrow> Inr [layer])
      | first # others \<Rightarrow>
          repeat_loop layer_class args name name_start_index [0..<length first] kwargs [])"

section \<open>\<^verbatim>\<open>repeat_layers\<close> over a store\<close>

text \<open>
  Claims about what a call leaves unchanged need the objects the caller and the callee
  share. The store holds the mutable objects that matter here: list objects and
  dictionary objects, each addressed by its position. A reference beyond the store
  cannot arise in Python and is reported as \<open>InvalidReference\<close>.
\<close>

record 'c store =
  list_objs :: "'c pyval list list"
  dict_objs :: "'c kwargs list"

text \<open>\<^verbatim>\<open>len(args[0])\<close> and \<^verbatim>\<open>args[j][i]\<close> read the list object a reference points to.\<close>

definition store_len :: "'c store \<Rightarrow> nat \<Rightarrow> pyerr + nat" where
  "store_len h r =
     (if r < length (list_objs h) then Inr (length (list_objs h ! r)) else Inl InvalidReference)"

definition store_index :: "'c store \<Rightarrow> nat \<Rightarrow> nat \<Rightarrow> pyerr + 'c pyval" where
  "store_index h r i =
     (if r < length (list_objs h) then py_index (list_objs h ! r) i else Inl InvalidReference)"

text \<open>
  \<^verbatim>\<open>kwargs["name"] = ...\<close> and \<^verbatim>\<open>kwargs.pop("input_shape", None)\<close> change the
  dictionary object at one address in place.
\<close>

definition dict_update :: "nat \<Rightarrow> ('c kwargs \<Rightarrow> 'c kwargs) \<Rightarrow> 'c store \<Rightarrow> 'c store" where
  "dict_update k f h = h\<lparr>dict_objs := (dict_objs h)[k := f (dict_objs h ! k)]\<rparr>"

text \<open>A new dictionary object, at the next free address.\<close>

definition dict_alloc :: "'c kwargs \<Rightarrow> 'c store \<Rightarrow> nat \<times> 'c store" where
  "dict_alloc d h = (length (dict_objs h), h\<lparr>dict_objs := dict_objs h @ [d]\<rparr>)"

text \<open>
  The body of \<^verbatim>\<open>repeat_layers\<close> once more, now on references: \<open>args\<close> holds the
  addresses of the argument lists and \<open>kwargs\<close> the address of the callee's dictionary.
  The local lists \<^verbatim>\<open>arg\<close> and \<^verbatim>\<open>layers\<close> are new and unshared, so they stay values.
  The constructor is external; it receives the positional values and, through
  \<^verbatim>\<open>**kwargs\<close>, the contents of the dictionary, and is taken not to touch the store.
  The store is returned with the result, also when an exception ends the call.
\<close>

fun collect_args_store ::
  "'c store \<Rightarrow> nat list \<Rightarrow> nat \<Rightarrow> 'c pyval list \<Rightarrow> pyerr + 'c pyval list" where
  "collect_args_store h [] i arg = Inr arg"
| "collect_args_store h (r # rest) i arg =
     (case store_index h r i of
        Inl e \<Rightarrow> Inl e
      | Inr v \<Rightarrow> collect_args_store h rest i (arg @ [v]))"

fun repeat_loop_store ::
  "('c pyval list \<Rightarrow> 'c kwargs \<Rightarrow> pyerr + 'o) \<Rightarrow> nat list \<Rightarrow> string option \<Rightarrow> int
   \<Rightarrow> nat list \<Rightarrow> nat \<Rightarrow> 'c store \<Rightarrow> 'o list \<Rightarrow> (pyerr + 'o list) \<times> 'c store" where
  "repeat_loop_store layer_class args name name_start_index [] kwargs h acc = (Inr acc, h)"
| "repeat_loop_store layer_class args name name_start_index (i # is) kwargs h acc =
     (case collect_args_store h args i [] of
        Inl e \<Rightarrow> (Inl e, h)
      | Inr arg \<Rightarrow>
          let h' = dict_update kwargs (set_name name name_start_index i) h
          in (case layer_class arg (dict_objs h' ! kwargs) of
                Inl e \<Rightarrow> (Inl e, h')
              | Inr layer \<Rightarrow>
                  repeat_loop_store layer_class args name name_start_index is kwargs
                    (dict_update kwargs (\<lambda>d. d(''input_shape'' := None)) h') (acc @ [layer])))"

definition repeat_layers_store ::
  "('c pyval list \<Rightarrow> 'c kwargs \<Rightarrow> pyerr + 'o) \<Rightarrow> nat list \<Rightarrow> string option \<Rightarrow> int
   \<Rightarrow> nat \<Rightarrow> 'c store \<Rightarrow> (pyerr + 'o list) \<times> 'c store" where
  "repeat_layers_store layer_class args name name_start_index kwargs h =
     (case args of
        [] \<Rightarrow>
          if (dict_objs h ! kwargs) ''name'' \<noteq> None then (Inl TypeError, h)
          else (case layer_class [] ((dict_objs h ! kwargs)(''name'' \<mapsto> name_value name)) of
                  Inl e \<Rightarrow> (Inl e, h)
                | Inr layer \<Rightarrow> (Inr [layer], h))
      | first # others \<Rightarrow>
          (case store_len h first of
             Inl e \<Rightarrow> (Inl e, h)
           | Inr n \<Rightarrow>
               repeat_loop_store layer_class args name name_start_index [0..<n] kwargs h []))"

text \<open>
  A call \<^verbatim>\<open>repeat_layers(layer_class, *lists, name=name,
  name_start_index=name_start_index, **cfg)\<close> by a caller that holds the lists and the
  mapping \<^verbatim>\<open>cfg\<close>. Binding the signature
  \<^verbatim>\<open>(layer_class, *args, name=None, name_start_index=1, **kwargs)\<close> puts the
  references of the caller's lists into the tuple \<^verbatim>\<open>args\<close> and collects the
  keywords of \<^verbatim>\<open>cfg\<close> in a new dictionary \<^verbatim>\<open>kwargs\<close>; a keyword given twice is a
  \<^verbatim>\<open>TypeError\<close>.
\<close>

definition call_repeat_layers ::
  "('c pyval list \<Rightarrow> 'c kwargs \<Rightarrow> pyerr + 'o) \<Rightarrow> nat list \<Rightarrow> string option \<Rightarrow> int
   \<Rightarrow> nat \<Rightarrow> 'c store \<Rightarrow> (pyerr + 'o list) \<times> 'c store" where
  "call_repeat_layers layer_class arg_refs name name_start_index cfg h =
     (if \<not> cfg < length (dict_objs h) then (Inl InvalidReference, h)
      else if (dict_objs h ! cfg) ''name'' \<noteq> None
              \<or> (dict_objs h ! cfg) ''name_start_index'' \<noteq> None
      then (Inl TypeError, h)
      else (case dict_alloc (dict_objs h ! cfg) h of
              (kwargs, h') \<Rightarrow>
                repeat_layers_store layer_class arg_refs name name_start_index kwargs h'))"

text \<open>A store with one list and one mapping, for concrete runs.\<close>

definition store0 :: "unit store" where
  "store0 = \<lparr>list_objs = [[PInt 10, PInt 20]],
           dict_objs = [[''activation'' \<mapsto> PStr ''relu'', ''input_shape'' \<mapsto> PTuple [PInt 8]]]\<rparr>"

section \<open>Notions the specification uses\<close>

text \<open>
  The Sequential Applier of the specification: \<open>value = initial_value\<close>, then
  \<open>value = callable(value)\<close> for each callable in order. A callable that raises ends the
  fold with its exception.
\<close>

fun then_call :: "pyerr + 't \<Rightarrow> 't callable \<Rightarrow> pyerr + 't" where
  "then_call (Inl e) f = Inl e"
| "then_call (Inr v) f = f v"

definition apply_sequence :: "'t callable list \<Rightarrow> 't \<Rightarrow> pyerr + 't" where
  "apply_sequence callables initial_value = foldl then_call (Inr initial_value) callables"

text \<open>A callable Python object: a call behaviour together with any attributes.\<close>

definition layer_of ::
  "'t callable \<times> (string \<times> ('t callable) pyval) list \<Rightarrow> ('t callable) pyval" where
  "layer_of fa = PObject (Some (fst fa)) (snd fa)"

text \<open>
  Python's ordered sequences among the modelled values: lists, tuples, strings, and the
  instances of their subclasses.
\<close>

fun py_is_sequence :: "'c pyval \<Rightarrow> bool" where
  "py_is_sequence (PList xs) = True"
| "py_is_sequence (PTuple xs) = True"
| "py_is_sequence (PStr s) = True"
| "py_is_sequence (PSubclass base c attrs) = py_is_sequence base"
| "py_is_sequence _ = False"

text \<open>A callable value, and an ordered sequence all of whose elements are callable.\<close>

fun is_callable :: "'c pyval \<Rightarrow> bool" where
  "is_callable (PObject (Some f) attrs) = True"
| "is_callable (PSubclass base (Some f) attrs) = True"
| "is_callable _ = False"

definition sequence_of_callables :: "'c pyval \<Rightarrow> bool" where
  "sequence_of_callables v =
     (py_is_sequence v
      \<and> (case py_iter v of Inr elems \<Rightarrow> list_all is_callable elems | Inl e \<Rightarrow> False))"


text \<open>A value that has a member \<^verbatim>\<open>layers\<close> of its own.\<close>

definition has_layers_attr :: "'c pyval \<Rightarrow> bool" where
  "has_layers_attr v = (case py_getattr v ''layers'' of Inr l \<Rightarrow> True | Inl e \<Rightarrow> False)"

text \<open>An object exposing a member \<^verbatim>\<open>layers\<close> that is an ordered sequence, or a list.\<close>

definition exposes_layers_sequence :: "'c pyval \<Rightarrow> bool" where
  "exposes_layers_sequence v =
     (case py_getattr v ''layers'' of Inr l \<Rightarrow> py_is_sequence l | Inl e \<Rightarrow> False)"

definition exposes_layers_list :: "'c pyval \<Rightarrow> bool" where
  "exposes_layers_list v =
     (case py_getattr v ''layers'' of Inr l \<Rightarrow> isinstance_list l | Inl e \<Rightarrow> False)"

text \<open>
  The positional arguments of object \<open>i\<close>: element \<open>i\<close> of each argument list, in the
  order of the lists.
\<close>

definition column :: "'a list list \<Rightarrow> nat \<Rightarrow> 'a list" where
  "column args i = map (\<lambda>a. a ! i) args"

text \<open>
  The keyword configuration of object \<open>i\<close>: the shared configuration, without the
  initial-only key \<^verbatim>\<open>input_shape\<close> after the first object, and with the suffixed name.
\<close>

definition kwargs_at :: "string option \<Rightarrow> int \<Rightarrow> 'c kwargs \<Rightarrow> nat \<Rightarrow> 'c kwargs" where
  "kwargs_at name name_start_index kwargs i =
     set_name name name_start_index i
       (if i = 0 then kwargs else kwargs(''input_shape'' := None))"

text \<open>A constructor that returns what it was called with.\<close>

definition record_call ::
  "'c pyval list \<Rightarrow> 'c kwargs \<Rightarrow> pyerr + ('c pyval list \<times> 'c kwargs)" where
  "record_call arg kwargs = Inr (arg, kwargs)"

text \<open>The length of the shortest argument list.\<close>

definition shortest :: "'a list list \<Rightarrow> nat" where
  "shortest args = Min (set (map length args))"

section \<open>The Sequential Applier\<close>

lemma foldl_then_call_Inl: "foldl then_call (Inl e) fs = Inl e"
  by (induction fs) simp_all

lemma call_loop_fold:
  "call_loop (map layer_of fas) x = foldl then_call (Inr x) (map fst fas)"
proof (induction fas arbitrary: x)
  case Nil
  show ?case by simp
next
  case (Cons fa fas)
  show ?case
  proof (cases "fst fa x")
    case (Inl e)
    then show ?thesis
      by (simp add: layer_of_def foldl_then_call_Inl)
  next
    case (Inr y)
    then show ?thesis
      using Cons.IH [of y] by (simp add: layer_of_def)
  qed
qed

text \<open>
  Claim C5. For every list of callables and every initial value, \<^verbatim>\<open>call_layers\<close> is the
  left fold of application: each callable is applied in list order to the running value.
  For three callables \<open>f\<close>, \<open>g\<close>, \<open>h\<close> the result is \<open>h(g(f(x)))\<close>, where an exception of
  an earlier call is the result; for callables that return, it is literally
  \<open>h (g (f x))\<close>. For the empty list the initial value comes back unchanged.
\<close>

theorem call_layers_left_fold:
  "call_layers (PList (map layer_of fas)) x = apply_sequence (map fst fas) x
   \<and> call_layers (PList [layer_of (f, af), layer_of (g, ag), layer_of (h, ah)]) x
       = then_call (then_call (f x) g) h
   \<and> call_layers
        (PList [layer_of (Inr \<circ> f', af), layer_of (Inr \<circ> g', ag), layer_of (Inr \<circ> h', ah)]) x
       = Inr (h' (g' (f' x)))
   \<and> call_layers (PList []) x = Inr x"
proof -
  have gen: "\<And>fas. call_layers (PList (map layer_of fas)) x = apply_sequence (map fst fas) x"
    by (simp add: call_layers_def apply_sequence_def call_loop_fold)
  have three: "call_layers (PList [layer_of (f, af), layer_of (g, ag), layer_of (h, ah)]) x
       = then_call (then_call (f x) g) h"
    using gen [of "[(f, af), (g, ag), (h, ah)]"]
    by (simp add: apply_sequence_def)
  have pure: "call_layers
        (PList [layer_of (Inr \<circ> f', af), layer_of (Inr \<circ> g', ag), layer_of (Inr \<circ> h', ah)]) x
       = Inr (h' (g' (f' x)))"
    using gen [of "[(Inr \<circ> f', af), (Inr \<circ> g', ag), (Inr \<circ> h', ah)]"]
    by (simp add: apply_sequence_def)
  have emp: "call_layers (PList []) x = Inr x"
    by (simp add: call_layers_def)
  from gen three pure emp show ?thesis by blast
qed

theorem call_layers_left_fold_witness:
  "call_layers (PList [layer_of (\<lambda>n. Inr (n + 1), []), layer_of (\<lambda>n. Inr (n * 2), []),
                       layer_of (\<lambda>n. Inr (n - 3), [])]) (5::int) = Inr 9
   \<and> call_layers (PList [layer_of (\<lambda>n. Inr (n + 1), []), layer_of (\<lambda>n. Inl (Raised ''boom''), []),
                       layer_of (\<lambda>n. Inr (n - 3), [])]) (5::int) = Inl (Raised ''boom'')"
proof -
  have a: "call_layers (PList [layer_of (\<lambda>n. Inr (n + 1), []), layer_of (\<lambda>n. Inr (n * 2), []),
                       layer_of (\<lambda>n. Inr (n - 3), [])]) (5::int) = Inr 9"
    using call_layers_left_fold
      [of "[]" "5::int" "\<lambda>n. Inr (n + 1)" "[]" "\<lambda>n. Inr (n * 2)" "[]"
         "\<lambda>n. Inr (n - 3)" "[]"]
    by simp
  have b: "call_layers (PList [layer_of (\<lambda>n. Inr (n + 1), []),
                       layer_of (\<lambda>n. Inl (Raised ''boom''), []),
                       layer_of (\<lambda>n. Inr (n - 3), [])]) (5::int) = Inl (Raised ''boom'')"
    using call_layers_left_fold
      [of "[]" "5::int" "\<lambda>n. Inr (n + 1)" "[]" "\<lambda>n. Inl (Raised ''boom'')" "[]"
         "\<lambda>n. Inr (n - 3)" "[]"]
    by simp
  from a b show ?thesis by simp
qed

section \<open>The Stack Wrapper\<close>

lemma LayerStack_init_direct:
  "py_getattr v ''layers'' = Inl e \<Longrightarrow>
   LayerStack_init v =
     (if isinstance_list v then Inr \<lparr>layers = v\<rparr> else Inl (ValueError must_be_list_msg))"
  by (simp add: LayerStack_init_def)

lemma LayerStack_init_composite:
  "py_getattr v ''layers'' = Inr l \<Longrightarrow>
   LayerStack_init v =
     (if isinstance_list l then Inr \<lparr>layers = l\<rparr> else Inl (ValueError must_be_list_msg))"
  by (simp add: LayerStack_init_def)

lemma isinstance_list_is_sequence: "isinstance_list v \<Longrightarrow> py_is_sequence v"
  by (induction v) simp_all

lemma LayerStack_init_no_list:
  assumes "\<not> isinstance_list v" and "\<not> exposes_layers_list v"
  shows "LayerStack_init v = Inl (ValueError must_be_list_msg)"
proof (cases "py_getattr v ''layers''")
  case (Inl e)
  with assms(1) show ?thesis by (simp add: LayerStack_init_direct)
next
  case (Inr l)
  with assms(2) have "\<not> isinstance_list l"
    by (simp add: exposes_layers_list_def)
  with Inr show ?thesis by (simp add: LayerStack_init_composite)
qed

lemma exposes_layers_list_is_sequence:
  "exposes_layers_list v \<Longrightarrow> exposes_layers_sequence v"
  by (auto simp: exposes_layers_list_def exposes_layers_sequence_def
        isinstance_list_is_sequence split: sum.splits)

text \<open>
  Claim C6 as stated covers every value that is not an ordered sequence of callables and
  exposes no ordered \<^verbatim>\<open>layers\<close> member. The list \<^verbatim>\<open>[3]\<close> is such a value: its element
  is not callable. Line 23 tests \<^verbatim>\<open>isinstance(keras_layers, list)\<close> and never looks at
  the elements, so the stack is built.
\<close>

theorem LayerStack_init_invalid_input_kind_counterexample:
  "\<not> sequence_of_callables (PList [PInt 3] :: (int callable) pyval)
   \<and> \<not> exposes_layers_sequence (PList [PInt 3] :: (int callable) pyval)
   \<and> LayerStack_init (PList [PInt 3] :: (int callable) pyval) = Inr \<lparr>layers = PList [PInt 3]\<rparr>"
  by (simp add: sequence_of_callables_def exposes_layers_sequence_def LayerStack_init_def)

text \<open>
  Claim C6, amended. Construction from a value that is neither a list (an instance of
  \<^verbatim>\<open>list\<close>, whatever its elements) nor an object exposing an ordered \<^verbatim>\<open>layers\<close>
  member raises \<^verbatim>\<open>ValueError\<close>; the outcome is the exception, so no stack exists. A
  single integer is such a value.
\<close>

theorem LayerStack_init_rejects_non_list:
  assumes "\<not> isinstance_list v" and "\<not> exposes_layers_sequence v"
  shows "LayerStack_init v = Inl (ValueError must_be_list_msg)"
proof -
  from assms(2) have "\<not> exposes_layers_list v"
    using exposes_layers_list_is_sequence by blast
  with assms(1) show ?thesis by (rule LayerStack_init_no_list)
qed

theorem LayerStack_init_rejects_non_list_witness:
  "LayerStack_init (PInt 7 :: (int callable) pyval) = Inl (ValueError must_be_list_msg)
   \<and> LayerStack_init (PObject None [(''units'', PInt 3)] :: (int callable) pyval)
        = Inl (ValueError must_be_list_msg)
   \<and> LayerStack_init (PTuple [PInt 3] :: (int callable) pyval)
        = Inl (ValueError must_be_list_msg)"
proof -
  have a: "\<not> isinstance_list (PInt 7 :: (int callable) pyval)" by simp
  have b: "\<not> exposes_layers_sequence (PInt 7 :: (int callable) pyval)"
    by (simp add: exposes_layers_sequence_def)
  have c: "\<not> isinstance_list (PObject None [(''units'', PInt 3)] :: (int callable) pyval)"
    by simp
  have d: "\<not> exposes_layers_sequence
             (PObject None [(''units'', PInt 3)] :: (int callable) pyval)"
    by (simp add: exposes_layers_sequence_def)
  have e: "\<not> isinstance_list (PTuple [PInt 3] :: (int callable) pyval)" by simp
  have f: "\<not> exposes_layers_sequence (PTuple [PInt 3] :: (int callable) pyval)"
    by (simp add: exposes_layers_sequence_def)
  show ?thesis
    using LayerStack_init_rejects_non_list [OF a b]
      LayerStack_init_rejects_non_list [OF c d]
      LayerStack_init_rejects_non_list [OF e f] by simp
qed




text \<open>
  Claim C7 as stated covers every ordered sequence of callables. It fails in two ways.
  An instance of a subclass of \<^verbatim>\<open>list\<close> can carry a \<^verbatim>\<open>layers\<close> attribute of its own:
  line 20 then replaces it by that attribute on the direct path, while the composite path
  stores the instance itself, and the two stacks give different results. And for a tuple
  of callables no stack is built on either path, while \<^verbatim>\<open>call_layers\<close> on the tuple
  returns.
\<close>

theorem LayerStack_agree_counterexample:
  "sequence_of_callables
     (PSubclass (PList [PObject (Some (\<lambda>n. Inr (n + 1))) [], PObject (Some (\<lambda>n. Inr (n * 2))) []])
        None [(''layers'', PList [PObject (Some (\<lambda>n. Inr (n - 3))) []])] :: (int callable) pyval)
   \<and> stack_invoke
       (PSubclass (PList [PObject (Some (\<lambda>n. Inr (n + 1))) [], PObject (Some (\<lambda>n. Inr (n * 2))) []])
          None [(''layers'', PList [PObject (Some (\<lambda>n. Inr (n - 3))) []])]) (5::int) = Inr 2
   \<and> stack_invoke
       (PObject None [(''layers'',
          PSubclass (PList [PObject (Some (\<lambda>n. Inr (n + 1))) [], PObject (Some (\<lambda>n. Inr (n * 2))) []])
            None [(''layers'', PList [PObject (Some (\<lambda>n. Inr (n - 3))) []])])]) (5::int) = Inr 12
   \<and> sequence_of_callables
       (PTuple [PObject (Some (\<lambda>n. Inr (n + 1))) [], PObject (Some (\<lambda>n. Inr (n * 2))) []]
          :: (int callable) pyval)
   \<and> stack_invoke
       (PTuple [PObject (Some (\<lambda>n. Inr (n + 1))) [], PObject (Some (\<lambda>n. Inr (n * 2))) []])
       (5::int) = Inl (ValueError must_be_list_msg)
   \<and> call_layers
       (PTuple [PObject (Some (\<lambda>n. Inr (n + 1))) [], PObject (Some (\<lambda>n. Inr (n * 2))) []])
       (5::int) = Inr 12"
  by (simp add: sequence_of_callables_def stack_invoke_def LayerStack_init_def
        LayerStack_call_def call_layers_def)

text \<open>
  Claim C7, amended. For every list \<open>L\<close> (an instance of \<^verbatim>\<open>list\<close>) that has no
  \<^verbatim>\<open>layers\<close> member of its own, construction from \<open>L\<close> itself and construction from a
  composite object whose \<^verbatim>\<open>layers\<close> member is \<open>L\<close> build the same stack, which stores
  \<open>L\<close>; invoked on the same input they give the same result, which is \<^verbatim>\<open>call_layers\<close>
  on the stored list and the input.
\<close>

theorem LayerStack_list_and_composite_agree:
  assumes "isinstance_list L" and "\<not> has_layers_attr L"
    and "py_getattr C ''layers'' = Inr L"
  shows "LayerStack_init L = Inr \<lparr>layers = L\<rparr>
       \<and> LayerStack_init C = Inr \<lparr>layers = L\<rparr>
       \<and> stack_invoke L x = stack_invoke C x
       \<and> stack_invoke L x = call_layers L x
       \<and> stack_invoke C x = call_layers L x"
proof -
  from assms(2) obtain e where "py_getattr L ''layers'' = Inl e"
    by (cases "py_getattr L ''layers''") (simp_all add: has_layers_attr_def)
  with assms(1) have direct: "LayerStack_init L = Inr \<lparr>layers = L\<rparr>"
    by (simp add: LayerStack_init_direct)
  from assms(1,3) have composite: "LayerStack_init C = Inr \<lparr>layers = L\<rparr>"
    by (simp add: LayerStack_init_composite)
  from direct composite show ?thesis
    by (simp add: stack_invoke_def LayerStack_call_def)
qed

theorem LayerStack_list_and_composite_agree_witness:
  "stack_invoke (PList [PObject (Some (\<lambda>n. Inr (n + 1))) [],
                        PObject (Some (\<lambda>n. Inr (n * 2))) []]) (5::int) = Inr 12
   \<and> stack_invoke (PObject None [(''name'', PStr ''enc''),
           (''layers'', PList [PObject (Some (\<lambda>n. Inr (n + 1))) [],
                               PObject (Some (\<lambda>n. Inr (n * 2))) []])]) (5::int) = Inr 12"
proof -
  let ?L = "PList [PObject (Some (\<lambda>n. Inr (n + 1))) [], PObject (Some (\<lambda>n. Inr (n * 2))) []]
            :: (int callable) pyval"
  let ?C = "PObject None [(''name'', PStr ''enc''), (''layers'', ?L)]"
  have a: "isinstance_list ?L" by simp
  have b: "\<not> has_layers_attr ?L" by (simp add: has_layers_attr_def)
  have c: "py_getattr ?C ''layers'' = Inr ?L" by simp
  have d: "call_layers ?L (5::int) = Inr 12" by (simp add: call_layers_def)
  from LayerStack_list_and_composite_agree [OF a b c, of 5] d
  show ?thesis by simp
qed

section \<open>The Batch Constructor\<close>

lemma collect_args_in_range:
  "\<forall>a\<in>set args. i < length a \<Longrightarrow> collect_args args i arg = Inr (arg @ column args i)"
  by (induction args arbitrary: arg) (simp_all add: column_def py_index_def)

lemma collect_args_out_of_range:
  "\<exists>a\<in>set args. length a \<le> i \<Longrightarrow> collect_args args i arg = Inl IndexError"
proof (induction args arbitrary: arg)
  case Nil
  then show ?case by simp
next
  case (Cons a rest)
  show ?case
  proof (cases "i < length a")
    case True
    with Cons.prems have "\<exists>b\<in>set rest. length b \<le> i" by auto
    with True Cons.IH show ?thesis by (simp add: py_index_def)
  next
    case False
    then show ?thesis by (simp add: py_index_def)
  qed
qed

lemma set_name_overwrites:
  "set_name name k j ((set_name name k i kw)(''input_shape'' := None))
     = set_name name k j (kw(''input_shape'' := None))"
  by (auto simp: set_name_def split: option.splits)

lemma loop_state_step:
  assumes "set_name name k m K = kwargs_at name k kw m"
    and "\<forall>j>m. set_name name k j (K(''input_shape'' := None)) = kwargs_at name k kw j"
    and "m < j"
  shows "set_name name k j ((kwargs_at name k kw m)(''input_shape'' := None))
           = kwargs_at name k kw j"
proof -
  have "set_name name k j ((kwargs_at name k kw m)(''input_shape'' := None))
          = set_name name k j ((set_name name k m K)(''input_shape'' := None))"
    by (simp only: assms(1))
  also have "\<dots> = set_name name k j (K(''input_shape'' := None))"
    by (rule set_name_overwrites)
  also have "\<dots> = kwargs_at name k kw j"
    using assms(2) assms(3) by simp
  finally show ?thesis .
qed

lemma repeat_loop_upt:
  assumes "\<forall>a\<in>set args. n \<le> length a"
    and "set_name name k m K = kwargs_at name k kw m"
    and "\<forall>j>m. set_name name k j (K(''input_shape'' := None)) = kwargs_at name k kw j"
    and "\<forall>i. m \<le> i \<and> i < n \<longrightarrow> \<not> isl (lc (column args i) (kwargs_at name k kw i))"
  shows "repeat_loop lc args name k [m..<n] K acc
           = Inr (acc @ map (\<lambda>i. projr (lc (column args i) (kwargs_at name k kw i))) [m..<n])"
  using assms
proof (induction "n - m" arbitrary: m K acc)
  case 0
  then show ?case by simp
next
  case (Suc d)
  then have mn: "m < n" by simp
  then have upt: "[m..<n] = m # [Suc m..<n]" by (rule upt_conv_Cons)
  from mn Suc.prems(1) have "\<forall>a\<in>set args. m < length a" by fastforce
  then have col: "collect_args args m [] = Inr (column args m)"
    by (simp add: collect_args_in_range)
  note kw_m = Suc.prems(2)
  from Suc.prems(4) mn have "\<not> isl (lc (column args m) (kwargs_at name k kw m))" by simp
  then obtain obj where obj: "lc (column args m) (kwargs_at name k kw m) = Inr obj"
    by (cases "lc (column args m) (kwargs_at name k kw m)") simp_all
  let ?K' = "(kwargs_at name k kw m)(''input_shape'' := None)"
  have d: "d = n - Suc m" using Suc.hyps(2) by simp
  have st1: "set_name name k (Suc m) ?K' = kwargs_at name k kw (Suc m)"
    by (rule loop_state_step [OF Suc.prems(2) Suc.prems(3)]) simp
  have st2: "\<forall>j>Suc m.
      set_name name k j (?K'(''input_shape'' := None)) = kwargs_at name k kw j"
    using loop_state_step [OF Suc.prems(2) Suc.prems(3)] by simp
  have ok: "\<forall>i. Suc m \<le> i \<and> i < n \<longrightarrow> \<not> isl (lc (column args i) (kwargs_at name k kw i))"
    using Suc.prems(4) by simp
  have IH: "repeat_loop lc args name k [Suc m..<n] ?K' (acc @ [obj])
            = Inr ((acc @ [obj])
                @ map (\<lambda>i. projr (lc (column args i) (kwargs_at name k kw i))) [Suc m..<n])"
    by (rule Suc.hyps(1) [OF d Suc.prems(1) st1 st2 ok])
  show ?case
    by (simp only: upt repeat_loop.simps col kw_m obj IH Let_def sum.case list.map
          sum.sel append_Cons append_Nil append_assoc)
qed

lemma repeat_loop_length:
  "repeat_loop lc args name k is K acc = Inr ls \<Longrightarrow> length ls = length acc + length is"
proof (induction "is" arbitrary: K acc)
  case Nil
  then show ?case by simp
next
  case (Cons i rest)
  from Cons.prems obtain arg where arg: "collect_args args i [] = Inr arg"
    by (cases "collect_args args i []") simp_all
  from Cons.prems arg obtain obj where obj: "lc arg (set_name name k i K) = Inr obj"
    by (cases "lc arg (set_name name k i K)") simp_all
  from Cons.prems arg obj
  have "repeat_loop lc args name k rest ((set_name name k i K)(''input_shape'' := None))
          (acc @ [obj]) = Inr ls"
    by simp
  from Cons.IH [OF this] show ?case by simp
qed

lemma repeat_loop_bad_index:
  "i \<in> set is \<Longrightarrow> \<exists>a\<in>set args. length a \<le> i \<Longrightarrow> isl (repeat_loop lc args name k is K acc)"
proof (induction "is" arbitrary: K acc)
  case Nil
  then show ?case by simp
next
  case (Cons j rest)
  show ?case
  proof (cases "collect_args args j []")
    case (Inl e)
    then show ?thesis by simp
  next
    case (Inr arg)
    with Cons.prems(2) have "j \<noteq> i"
      using collect_args_out_of_range [of args i "[]"] by auto
    with Cons.prems(1) have mem: "i \<in> set rest" by simp
    show ?thesis
    proof (cases "lc arg (set_name name k j K)")
      case (Inl e)
      with Inr show ?thesis by simp
    next
      case obj: (Inr obj)
      with Inr Cons.IH [OF mem Cons.prems(2)] show ?thesis by simp
    qed
  qed
qed

lemma repeat_loop_index_error:
  assumes "\<forall>a\<in>set args. s \<le> length a"
    and "\<exists>a\<in>set args. length a \<le> s"
    and "s < n" and "m \<le> s"
    and "set_name name k m K = kwargs_at name k kw m"
    and "\<forall>j>m. set_name name k j (K(''input_shape'' := None)) = kwargs_at name k kw j"
    and "\<forall>i. m \<le> i \<and> i < s \<longrightarrow> \<not> isl (lc (column args i) (kwargs_at name k kw i))"
  shows "repeat_loop lc args name k [m..<n] K acc = Inl IndexError"
  using assms
proof (induction "s - m" arbitrary: m K acc)
  case 0
  then have "m = s" by simp
  with "0.prems"(3) have upt: "[m..<n] = m # [Suc m..<n]" by (simp add: upt_conv_Cons)
  from \<open>m = s\<close> "0.prems"(2) have "collect_args args m [] = Inl IndexError"
    by (simp add: collect_args_out_of_range)
  then show ?case by (simp add: upt)
next
  case (Suc d)
  then have ms: "m < s" by simp
  with Suc.prems(3) have upt: "[m..<n] = m # [Suc m..<n]" by (simp add: upt_conv_Cons)
  from ms Suc.prems(1) have "\<forall>a\<in>set args. m < length a" by fastforce
  then have col: "collect_args args m [] = Inr (column args m)"
    by (simp add: collect_args_in_range)
  note kw_m = Suc.prems(5)
  from Suc.prems(7) ms have "\<not> isl (lc (column args m) (kwargs_at name k kw m))" by simp
  then obtain obj where obj: "lc (column args m) (kwargs_at name k kw m) = Inr obj"
    by (cases "lc (column args m) (kwargs_at name k kw m)") simp_all
  let ?K' = "(kwargs_at name k kw m)(''input_shape'' := None)"
  have d: "d = s - Suc m" using Suc.hyps(2) by simp
  have le: "Suc m \<le> s" using ms by simp
  have st1: "set_name name k (Suc m) ?K' = kwargs_at name k kw (Suc m)"
    by (rule loop_state_step [OF Suc.prems(5) Suc.prems(6)]) simp
  have st2: "\<forall>j>Suc m.
      set_name name k j (?K'(''input_shape'' := None)) = kwargs_at name k kw j"
    using loop_state_step [OF Suc.prems(5) Suc.prems(6)] by simp
  have ok: "\<forall>i. Suc m \<le> i \<and> i < s \<longrightarrow> \<not> isl (lc (column args i) (kwargs_at name k kw i))"
    using Suc.prems(7) by simp
  have IH: "repeat_loop lc args name k [Suc m..<n] ?K' (acc @ [obj]) = Inl IndexError"
    by (rule Suc.hyps(1) [OF d Suc.prems(1) Suc.prems(2) Suc.prems(3) le st1 st2 ok])
  show ?case
    by (simp only: upt repeat_loop.simps col kw_m obj IH Let_def sum.case)
qed

lemma kwargs_at_input_shape_first:
  "kwargs_at name k kw 0 ''input_shape'' = kw ''input_shape''"
  by (simp add: kwargs_at_def set_name_def split: option.splits)

lemma kwargs_at_input_shape_later:
  "0 < i \<Longrightarrow> kwargs_at name k kw i ''input_shape'' = None"
  by (simp add: kwargs_at_def set_name_def split: option.splits)

lemma kwargs_at_name:
  "s \<noteq> [] \<Longrightarrow>
   kwargs_at (Some s) k kw i ''name'' = Some (PStr (s @ ''_'' @ str_int (k + int i)))"
  by (simp add: kwargs_at_def set_name_def)

lemma repeat_layers_all_ok:
  assumes "args \<noteq> []"
    and "\<forall>a\<in>set args. length (hd args) \<le> length a"
    and "\<forall>i<length (hd args). \<not> isl (lc (column args i) (kwargs_at name k kw i))"
  shows "repeat_layers lc args name k kw
           = Inr (map (\<lambda>i. projr (lc (column args i) (kwargs_at name k kw i)))
                    [0..<length (hd args)])"
proof -
  from assms(1) obtain first others where args: "args = first # others"
    by (cases args) simp_all
  have "repeat_loop lc args name k [0..<length (hd args)] kw []
          = Inr ([] @ map (\<lambda>i. projr (lc (column args i) (kwargs_at name k kw i)))
                        [0..<length (hd args)])"
  proof (rule repeat_loop_upt [OF assms(2)])
    show "set_name name k 0 kw = kwargs_at name k kw 0"
      by (simp add: kwargs_at_def)
    show "\<forall>j>0. set_name name k j (kw(''input_shape'' := None)) = kwargs_at name k kw j"
      by (simp add: kwargs_at_def)
    show "\<forall>i. 0 \<le> i \<and> i < length (hd args)
            \<longrightarrow> \<not> isl (lc (column args i) (kwargs_at name k kw i))"
      using assms(3) by simp
  qed
  then show ?thesis
    by (simp add: repeat_layers_def args)
qed

lemma repeat_layers_calls:
  assumes "args \<noteq> []"
    and "\<forall>a\<in>set args. length (hd args) \<le> length a"
    and "length (hd args) = n"
    and "\<forall>i<n. \<not> isl (lc (column args i) (kwargs_at name k kw i))"
  shows "\<exists>objs.
           repeat_layers lc args name k kw = Inr objs
         \<and> repeat_layers record_call args name k kw
             = Inr (map (\<lambda>i. (column args i, kwargs_at name k kw i)) [0..<n])
         \<and> length objs = n
         \<and> (\<forall>i<n. lc (column args i) (kwargs_at name k kw i) = Inr (objs ! i))"
proof -
  let ?objs = "map (\<lambda>i. projr (lc (column args i) (kwargs_at name k kw i))) [0..<n]"
  have objs: "repeat_layers lc args name k kw = Inr ?objs"
    using repeat_layers_all_ok [OF assms(1,2), of lc name k kw] assms(3,4) by simp
  have calls: "repeat_layers record_call args name k kw
                 = Inr (map (\<lambda>i. (column args i, kwargs_at name k kw i)) [0..<n])"
    using repeat_layers_all_ok [OF assms(1,2), of record_call name k kw] assms(3)
    by (simp add: record_call_def)
  have len: "length ?objs = n" by simp
  have each: "\<forall>i<n. lc (column args i) (kwargs_at name k kw i) = Inr (?objs ! i)"
  proof (intro allI impI)
    fix i assume i: "i < n"
    with assms(4) obtain obj where "lc (column args i) (kwargs_at name k kw i) = Inr obj"
      by (cases "lc (column args i) (kwargs_at name k kw i)") auto
    with i show "lc (column args i) (kwargs_at name k kw i) = Inr (?objs ! i)"
      by simp
  qed
  show ?thesis
    by (rule exI [of _ ?objs]) (intro conjI objs calls len each)
qed

text \<open>
  Claim C1. With at least one argument list, all of length \<open>n\<close>, and a constructor that
  raises on none of the calls, \<^verbatim>\<open>repeat_layers\<close> returns \<open>n\<close> objects. The calls it
  makes are the ones the recording constructor returns: call \<open>i\<close> has as positional
  arguments element \<open>i\<close> of each argument list, in the order of the lists, and object \<open>i\<close>
  is what the constructor returns for call \<open>i\<close>.
\<close>

theorem repeat_layers_positional_arguments:
  assumes "args \<noteq> []"
    and "\<forall>a\<in>set args. length a = n"
    and "\<forall>i<n. \<not> isl (lc (column args i) (kwargs_at name k kw i))"
  shows "\<exists>objs calls.
           repeat_layers lc args name k kw = Inr objs
         \<and> repeat_layers record_call args name k kw = Inr calls
         \<and> length objs = n \<and> length calls = n
         \<and> (\<forall>i<n. fst (calls ! i) = map (\<lambda>a. a ! i) args
                  \<and> lc (fst (calls ! i)) (snd (calls ! i)) = Inr (objs ! i))"
proof -
  from assms(1,2) have hd: "length (hd args) = n" by (cases args) simp_all
  with assms(2) have range: "\<forall>a\<in>set args. length (hd args) \<le> length a" by simp
  from repeat_layers_calls [OF assms(1) range hd assms(3)]
  obtain objs where objs: "repeat_layers lc args name k kw = Inr objs"
    and calls: "repeat_layers record_call args name k kw
                  = Inr (map (\<lambda>i. (column args i, kwargs_at name k kw i)) [0..<n])"
    and len: "length objs = n"
    and each: "\<forall>i<n. lc (column args i) (kwargs_at name k kw i) = Inr (objs ! i)"
    by blast
  let ?calls = "map (\<lambda>i. (column args i, kwargs_at name k kw i)) [0..<n]"
  have len_calls: "length ?calls = n" by simp
  have pos: "\<forall>i<n. fst (?calls ! i) = map (\<lambda>a. a ! i) args
                  \<and> lc (fst (?calls ! i)) (snd (?calls ! i)) = Inr (objs ! i)"
    using each by (simp add: column_def)
  show ?thesis
    by (rule exI [of _ objs], rule exI [of _ ?calls])
       (intro conjI objs calls len len_calls pos)
qed

theorem repeat_layers_positional_arguments_witness:
  "repeat_layers record_call
     [[PInt 32, PInt 64], [PTuple [PInt 3, PInt 7], PInt 5 :: unit pyval]] None 1 Map.empty
   = Inr [([PInt 32, PTuple [PInt 3, PInt 7]], Map.empty), ([PInt 64, PInt 5], Map.empty)]"
proof -
  let ?args = "[[PInt 32, PInt 64], [PTuple [PInt 3, PInt 7], PInt 5 :: unit pyval]]"
  have h1: "?args \<noteq> []" by simp
  have h2: "\<forall>a\<in>set ?args. length a = 2" by simp
  have h3: "\<forall>i<2. \<not> isl (record_call (column ?args i) (kwargs_at None 1 Map.empty i))"
    by (simp add: record_call_def)
  have kws: "repeat_layers record_call ?args None 1 Map.empty
              = Inr [([PInt 32, PTuple [PInt 3, PInt 7]], Map.empty),
                     ([PInt 64, PInt 5], Map.empty)]"
    by (simp add: repeat_layers_def set_name_def py_index_def record_call_def Let_def)
  show ?thesis
    using repeat_layers_positional_arguments [OF h1 h2 h3] kws by simp
qed

text \<open>
  Claim C2. Whenever \<^verbatim>\<open>repeat_layers\<close> returns for at least one argument list, the
  length of the result is the length of the first list; it does return when no list is
  shorter than the first and the constructor raises on none of the calls. With no
  argument list the result has exactly one element: the constructor called with no
  positional argument and with the shared keywords plus \<^verbatim>\<open>name=name\<close>.
\<close>

theorem repeat_layers_length:
  "(args \<noteq> [] \<and> repeat_layers lc args name k kw = Inr ls \<longrightarrow> length ls = length (hd args))
   \<and> (args \<noteq> [] \<and> (\<forall>a\<in>set args. length (hd args) \<le> length a)
        \<and> (\<forall>i<length (hd args). \<not> isl (lc (column args i) (kwargs_at name k kw i)))
      \<longrightarrow> (\<exists>objs. repeat_layers lc args name k kw = Inr objs
                \<and> length objs = length (hd args)))
   \<and> (kw ''name'' = None \<and> \<not> isl (lc [] (kw(''name'' \<mapsto> name_value name)))
      \<longrightarrow> (\<exists>obj. repeat_layers lc [] name k kw = Inr [obj]
                \<and> lc [] (kw(''name'' \<mapsto> name_value name)) = Inr obj))"
proof (intro conjI impI)
  assume a: "args \<noteq> [] \<and> repeat_layers lc args name k kw = Inr ls"
  then obtain first others where args: "args = first # others"
    by (cases args) simp_all
  with a have "repeat_loop lc args name k [0..<length first] kw [] = Inr ls"
    by (simp add: repeat_layers_def)
  from repeat_loop_length [OF this] args show "length ls = length (hd args)" by simp
next
  assume a: "args \<noteq> [] \<and> (\<forall>a\<in>set args. length (hd args) \<le> length a)
        \<and> (\<forall>i<length (hd args). \<not> isl (lc (column args i) (kwargs_at name k kw i)))"
  then have "repeat_layers lc args name k kw
           = Inr (map (\<lambda>i. projr (lc (column args i) (kwargs_at name k kw i)))
                    [0..<length (hd args)])"
    using repeat_layers_all_ok [of args lc name k kw] by blast
  then show "\<exists>objs. repeat_layers lc args name k kw = Inr objs
                \<and> length objs = length (hd args)"
    by simp
next
  assume a: "kw ''name'' = None \<and> \<not> isl (lc [] (kw(''name'' \<mapsto> name_value name)))"
  then obtain obj where "lc [] (kw(''name'' \<mapsto> name_value name)) = Inr obj"
    by (cases "lc [] (kw(''name'' \<mapsto> name_value name))") auto
  with a show "\<exists>obj. repeat_layers lc [] name k kw = Inr [obj]
                \<and> lc [] (kw(''name'' \<mapsto> name_value name)) = Inr obj"
    by (simp add: repeat_layers_def)
qed



theorem repeat_layers_length_witness:
  "length (projr (repeat_layers record_call
       [[PInt 10, PInt 20, PInt 30], [PInt 1, PInt 2, PInt 3, PInt 4 :: unit pyval]]
       None 1 [''activation'' \<mapsto> PStr ''relu''])) = 3
   \<and> repeat_layers record_call ([] :: unit pyval list list) (Some ''h'') 1
         [''activation'' \<mapsto> PStr ''relu'']
       = Inr [([], [''activation'' \<mapsto> PStr ''relu'', ''name'' \<mapsto> PStr ''h''])]
   \<and> repeat_layers record_call ([] :: unit pyval list list) None 1 Map.empty
       = Inr [([], [''name'' \<mapsto> PNone])]"
proof -
  let ?args = "[[PInt 10, PInt 20, PInt 30], [PInt 1, PInt 2, PInt 3, PInt 4 :: unit pyval]]"
  let ?kw = "[''activation'' \<mapsto> PStr ''relu''] :: unit kwargs"
  have r: "repeat_layers record_call ?args None 1 ?kw
             = Inr (projr (repeat_layers record_call ?args None 1 ?kw))"
    by (simp add: repeat_layers_def set_name_def py_index_def record_call_def Let_def)
  have a: "length (projr (repeat_layers record_call ?args None 1 ?kw)) = 3"
    using repeat_layers_length
      [of ?args record_call None 1 ?kw "projr (repeat_layers record_call ?args None 1 ?kw)"]
      r by simp
  have b: "repeat_layers record_call ([] :: unit pyval list list) (Some ''h'') 1 ?kw
       = Inr [([], ?kw(''name'' \<mapsto> PStr ''h''))]"
    by (simp add: repeat_layers_def record_call_def name_value_def)
  have c: "repeat_layers record_call ([] :: unit pyval list list) None 1 Map.empty
       = Inr [([], [''name'' \<mapsto> PNone])]"
    by (simp add: repeat_layers_def record_call_def name_value_def)
  from a b c show ?thesis by simp
qed

text \<open>
  Claim C3. For a batch of size \<open>n > 0\<close> (so for every \<open>n \<ge> 2\<close>) built with the key
  \<^verbatim>\<open>input_shape\<close> in the shared configuration, the keywords of the first call hold
  \<^verbatim>\<open>input_shape\<close> with its value, and the keywords of every later call do not hold it.
\<close>

theorem repeat_layers_input_shape_first_only:
  assumes "args \<noteq> []"
    and "\<forall>a\<in>set args. length (hd args) \<le> length a"
    and "length (hd args) = n" and "0 < n"
    and "kw ''input_shape'' = Some shape"
    and "\<forall>i<n. \<not> isl (lc (column args i) (kwargs_at name k kw i))"
  shows "\<exists>objs calls.
           repeat_layers lc args name k kw = Inr objs
         \<and> repeat_layers record_call args name k kw = Inr calls
         \<and> length objs = n \<and> length calls = n
         \<and> (\<forall>i<n. lc (fst (calls ! i)) (snd (calls ! i)) = Inr (objs ! i))
         \<and> snd (calls ! 0) ''input_shape'' = Some shape
         \<and> (\<forall>i. 1 \<le> i \<and> i < n \<longrightarrow> snd (calls ! i) ''input_shape'' = None)"
proof -
  from repeat_layers_calls [OF assms(1,2,3,6)]
  obtain objs where objs: "repeat_layers lc args name k kw = Inr objs"
    and calls: "repeat_layers record_call args name k kw
                  = Inr (map (\<lambda>i. (column args i, kwargs_at name k kw i)) [0..<n])"
    and len: "length objs = n"
    and each: "\<forall>i<n. lc (column args i) (kwargs_at name k kw i) = Inr (objs ! i)"
    by blast
  let ?calls = "map (\<lambda>i. (column args i, kwargs_at name k kw i)) [0..<n]"
  have len_calls: "length ?calls = n" by simp
  have made: "\<forall>i<n. lc (fst (?calls ! i)) (snd (?calls ! i)) = Inr (objs ! i)"
    using each by simp
  have first: "snd (?calls ! 0) ''input_shape'' = Some shape"
    using assms(4,5) by (simp add: kwargs_at_input_shape_first)
  have later: "\<forall>i. 1 \<le> i \<and> i < n \<longrightarrow> snd (?calls ! i) ''input_shape'' = None"
    by (simp add: kwargs_at_input_shape_later)
  show ?thesis
    by (rule exI [of _ objs], rule exI [of _ ?calls])
       (intro conjI objs calls len len_calls made first later)
qed

theorem repeat_layers_input_shape_first_only_witness:
  "map (\<lambda>c. snd c ''input_shape'')
     (projr (repeat_layers record_call [[PInt 1, PInt 2, PInt 3 :: unit pyval]] (Some ''rnn'') 1
        [''return_sequences'' \<mapsto> PInt 1, ''input_shape'' \<mapsto> PTuple [PInt 3, PInt 4]]))
   = [Some (PTuple [PInt 3, PInt 4]), None, None]"
proof -
  let ?args = "[[PInt 1, PInt 2, PInt 3 :: unit pyval]]"
  let ?kw = "[''return_sequences'' \<mapsto> PInt 1, ''input_shape'' \<mapsto> PTuple [PInt 3, PInt 4]]
             :: unit kwargs"
  have h1: "?args \<noteq> []" by simp
  have h2: "\<forall>a\<in>set ?args. length (hd ?args) \<le> length a" by simp
  have h3: "length (hd ?args) = 3" by simp
  have h4: "0 < (3::nat)" by simp
  have h5: "?kw ''input_shape'' = Some (PTuple [PInt 3, PInt 4])" by simp
  have h6: "\<forall>i<3. \<not> isl (record_call (column ?args i) (kwargs_at (Some ''rnn'') 1 ?kw i))"
    by (simp add: record_call_def)
  from repeat_layers_input_shape_first_only [OF h1 h2 h3 h4 h5 h6]
  obtain calls where calls: "repeat_layers record_call ?args (Some ''rnn'') 1 ?kw = Inr calls"
    and len: "length calls = 3"
    and first: "snd (calls ! 0) ''input_shape'' = Some (PTuple [PInt 3, PInt 4])"
    and later: "\<forall>i. 1 \<le> i \<and> i < 3 \<longrightarrow> snd (calls ! i) ''input_shape'' = None"
    by blast
  from len obtain c0 c1 c2 where cs: "calls = [c0, c1, c2]"
    by (cases calls; cases "tl calls"; cases "tl (tl calls)") auto
  from later have "snd (calls ! 1) ''input_shape'' = None" and "snd (calls ! 2) ''input_shape'' = None"
    by simp_all
  with first cs calls show ?thesis by simp
qed


text \<open>
  Claim C4 as stated speaks of every call in which the name is set. With no argument
  list, \<^verbatim>\<open>repeat_layers(layer_class, name="h")\<close> passes \<^verbatim>\<open>name="h"\<close> itself, not
  \<^verbatim>\<open>"h_1"\<close>; and the empty string is a name for which \<^verbatim>\<open>if name:\<close> is false, so
  no \<^verbatim>\<open>name\<close> keyword is passed at all.
\<close>

theorem repeat_layers_name_counterexample:
  "repeat_layers record_call ([] :: unit pyval list list) (Some ''h'') 1 Map.empty
     = Inr [([], [''name'' \<mapsto> PStr ''h''])]
   \<and> (PStr ''h'' :: unit pyval) \<noteq> PStr (''h'' @ ''_'' @ str_int (1 + int 0))
   \<and> snd (hd (projr (repeat_layers record_call [[PInt 10 :: unit pyval]] (Some []) 1
                       Map.empty))) ''name'' = None"
  by (simp add: repeat_layers_def record_call_def name_value_def set_name_def py_index_def)

text \<open>
  Claim C4, amended. With at least one argument list and a non-empty name \<open>s\<close>, call
  \<open>i\<close> (from 0) receives the keyword \<^verbatim>\<open>name\<close> equal to
  \<open>s + "_" + str(name_start_index + i)\<close>, whatever \<^verbatim>\<open>name\<close> the configuration held
  before. For \<^verbatim>\<open>name="h"\<close> and \<^verbatim>\<open>name_start_index=1\<close> a batch of three is named
  \<^verbatim>\<open>h_1\<close>, \<^verbatim>\<open>h_2\<close>, \<^verbatim>\<open>h_3\<close>.
\<close>

theorem repeat_layers_suffixed_names:
  assumes "args \<noteq> []"
    and "\<forall>a\<in>set args. length (hd args) \<le> length a"
    and "length (hd args) = n"
    and "s \<noteq> []"
    and "\<forall>i<n. \<not> isl (lc (column args i) (kwargs_at (Some s) k kw i))"
  shows "\<exists>objs calls.
           repeat_layers lc args (Some s) k kw = Inr objs
         \<and> repeat_layers record_call args (Some s) k kw = Inr calls
         \<and> length objs = n \<and> length calls = n
         \<and> (\<forall>i<n. lc (fst (calls ! i)) (snd (calls ! i)) = Inr (objs ! i))
         \<and> (\<forall>i<n. snd (calls ! i) ''name''
                     = Some (PStr (s @ ''_'' @ str_int (k + int i))))"
proof -
  from repeat_layers_calls [OF assms(1,2,3,5)]
  obtain objs where objs: "repeat_layers lc args (Some s) k kw = Inr objs"
    and calls: "repeat_layers record_call args (Some s) k kw
                  = Inr (map (\<lambda>i. (column args i, kwargs_at (Some s) k kw i)) [0..<n])"
    and len: "length objs = n"
    and each: "\<forall>i<n. lc (column args i) (kwargs_at (Some s) k kw i) = Inr (objs ! i)"
    by blast
  let ?calls = "map (\<lambda>i. (column args i, kwargs_at (Some s) k kw i)) [0..<n]"
  have len_calls: "length ?calls = n" by simp
  have made: "\<forall>i<n. lc (fst (?calls ! i)) (snd (?calls ! i)) = Inr (objs ! i)"
    using each by simp
  have names: "\<forall>i<n. snd (?calls ! i) ''name''
                     = Some (PStr (s @ ''_'' @ str_int (k + int i)))"
    using assms(4) by (simp add: kwargs_at_name)
  show ?thesis
    by (rule exI [of _ objs], rule exI [of _ ?calls])
       (intro conjI objs calls len len_calls made names)
qed

theorem repeat_layers_suffixed_names_witness:
  "map (\<lambda>c. snd c ''name'')
     (projr (repeat_layers record_call [[PInt 16, PInt 32, PInt 64 :: unit pyval]] (Some ''h'') 1
        Map.empty))
   = [Some (PStr ''h_1''), Some (PStr ''h_2''), Some (PStr ''h_3'')]"
proof -
  let ?args = "[[PInt 16, PInt 32, PInt 64 :: unit pyval]]"
  let ?kw = "Map.empty :: unit kwargs"
  have h1: "?args \<noteq> []" by simp
  have h2: "\<forall>a\<in>set ?args. length (hd ?args) \<le> length a" by simp
  have h3: "length (hd ?args) = 3" by simp
  have h4: "''h'' \<noteq> []" by simp
  have h5: "\<forall>i<3. \<not> isl (record_call (column ?args i) (kwargs_at (Some ''h'') 1 ?kw i))"
    by (simp add: record_call_def)
  from repeat_layers_suffixed_names [OF h1 h2 h3 h4 h5]
  obtain calls where calls: "repeat_layers record_call ?args (Some ''h'') 1 ?kw = Inr calls"
    and len: "length calls = 3"
    and names: "\<forall>i<3. snd (calls ! i) ''name''
                  = Some (PStr (''h'' @ ''_'' @ str_int (1 + int i)))"
    by blast
  from len obtain c0 c1 c2 where cs: "calls = [c0, c1, c2]"
    by (cases calls; cases "tl calls"; cases "tl (tl calls)") auto
  have s1: "str_int 1 = ''1''" and s2: "str_int 2 = ''2''" and s3: "str_int 3 = ''3''"
    by (simp_all add: str_int_def str_nat.simps digit_char_def)
  from names have "snd (calls ! 0) ''name'' = Some (PStr (''h'' @ ''_'' @ str_int (1 + int 0)))"
    and "snd (calls ! 1) ''name'' = Some (PStr (''h'' @ ''_'' @ str_int (1 + int 1)))"
    and "snd (calls ! 2) ''name'' = Some (PStr (''h'' @ ''_'' @ str_int (1 + int 2)))"
    by simp_all
  with cs calls s1 s2 s3 show ?thesis by simp
qed

lemma shortest_le: "a \<in> set args \<Longrightarrow> shortest args \<le> length a"
  by (simp add: shortest_def)

lemma shortest_attained: "args \<noteq> [] \<Longrightarrow> \<exists>a\<in>set args. length a = shortest args"
proof -
  assume "args \<noteq> []"
  then have "Min (set (map length args)) \<in> set (map length args)"
    by (intro Min_in) simp_all
  then show ?thesis by (auto simp: shortest_def)
qed

text \<open>
  Claim C8. When some argument list is shorter than the first, \<^verbatim>\<open>repeat_layers\<close> never
  returns a list, whatever the constructor does; and when the constructor raises on none
  of the calls made before the out-of-range access, the exception that reaches the
  caller is \<^verbatim>\<open>IndexError\<close>.
\<close>

theorem repeat_layers_index_error:
  assumes "args \<noteq> []" and "\<exists>a\<in>set args. length a < length (hd args)"
  shows "isl (repeat_layers lc args name k kw)
       \<and> ((\<forall>i<shortest args. \<not> isl (lc (column args i) (kwargs_at name k kw i)))
            \<longrightarrow> repeat_layers lc args name k kw = Inl IndexError)"
proof -
  from assms(1) obtain first others where args: "args = first # others"
    by (cases args) simp_all
  let ?n = "length (hd args)"
  let ?s = "shortest args"
  have loop: "repeat_layers lc args name k kw = repeat_loop lc args name k [0..<?n] kw []"
    by (simp add: repeat_layers_def args)
  have lower: "\<forall>a\<in>set args. ?s \<le> length a" by (simp add: shortest_le)
  from shortest_attained [OF assms(1)] obtain b where "b \<in> set args" and "length b = ?s"
    by blast
  then have bad: "\<exists>a\<in>set args. length a \<le> ?s" by (intro bexI [of _ b]) simp_all
  from assms(2) lower have short: "?s < ?n" by fastforce
  then have "?s \<in> set [0..<?n]" by simp
  from repeat_loop_bad_index [OF this bad] loop
  have fails: "isl (repeat_layers lc args name k kw)" by simp
  have index: "repeat_layers lc args name k kw = Inl IndexError"
    if ok: "\<forall>i<?s. \<not> isl (lc (column args i) (kwargs_at name k kw i))"
  proof -
    have "repeat_loop lc args name k [0..<?n] kw [] = Inl IndexError"
    proof (rule repeat_loop_index_error [OF lower bad short])
      show "0 \<le> ?s" by simp
      show "set_name name k 0 kw = kwargs_at name k kw 0"
        by (simp add: kwargs_at_def)
      show "\<forall>j>0. set_name name k j (kw(''input_shape'' := None)) = kwargs_at name k kw j"
        by (simp add: kwargs_at_def)
      show "\<forall>i. 0 \<le> i \<and> i < ?s \<longrightarrow> \<not> isl (lc (column args i) (kwargs_at name k kw i))"
        using ok by simp
    qed
    with loop show ?thesis by simp
  qed
  from fails index show ?thesis by blast
qed

theorem repeat_layers_index_error_witness:
  "repeat_layers record_call
     [[PInt 32, PInt 64, PInt 128], [PInt 3, PInt 5 :: unit pyval]] (Some ''conv'') 1 Map.empty
   = Inl IndexError"
proof -
  let ?args = "[[PInt 32, PInt 64, PInt 128], [PInt 3, PInt 5 :: unit pyval]]"
  have h1: "?args \<noteq> []" by simp
  have h2: "\<exists>a\<in>set ?args. length a < length (hd ?args)" by simp
  have h3: "\<forall>i<shortest ?args.
              \<not> isl (record_call (column ?args i) (kwargs_at (Some ''conv'') 1 Map.empty i))"
    by (simp add: record_call_def)
  from repeat_layers_index_error [OF h1 h2, of record_call "Some ''conv''" 1 Map.empty] h3
  show ?thesis by blast
qed

section \<open>What a call leaves unchanged\<close>

lemma dict_update_frame:
  "list_objs (dict_update k f h) = list_objs h"
  "length (dict_objs (dict_update k f h)) = length (dict_objs h)"
  "a \<noteq> k \<Longrightarrow> dict_objs (dict_update k f h) ! a = dict_objs h ! a"
  by (simp_all add: dict_update_def)

lemma repeat_loop_store_frame:
  "list_objs (snd (repeat_loop_store lc args name nsi is k h acc)) = list_objs h
   \<and> length (dict_objs (snd (repeat_loop_store lc args name nsi is k h acc)))
       = length (dict_objs h)
   \<and> (\<forall>a. a \<noteq> k \<longrightarrow>
         dict_objs (snd (repeat_loop_store lc args name nsi is k h acc)) ! a = dict_objs h ! a)"
proof (induction "is" arbitrary: h acc)
  case Nil
  show ?case by simp
next
  case (Cons i rest)
  show ?case
  proof (cases "collect_args_store h args i []")
    case (Inl e)
    then show ?thesis by simp
  next
    case (Inr arg)
    let ?h1 = "dict_update k (set_name name nsi i) h"
    let ?h2 = "dict_update k (\<lambda>d. d(''input_shape'' := None)) ?h1"
    show ?thesis
    proof (cases "lc arg (dict_objs ?h1 ! k)")
      case (Inl e)
      with Inr show ?thesis by (simp add: dict_update_frame)
    next
      case obj: (Inr layer)
      have step: "repeat_loop_store lc args name nsi (i # rest) k h acc
                    = repeat_loop_store lc args name nsi rest k ?h2 (acc @ [layer])"
        using Inr obj by simp
      from Cons.IH [of ?h2 "acc @ [layer]"] show ?thesis
        by (simp only: step) (simp add: dict_update_frame)
    qed
  qed
qed

lemma repeat_layers_store_frame:
  "list_objs (snd (repeat_layers_store lc args name nsi k h)) = list_objs h
   \<and> length (dict_objs (snd (repeat_layers_store lc args name nsi k h)))
       = length (dict_objs h)
   \<and> (\<forall>a. a \<noteq> k \<longrightarrow>
         dict_objs (snd (repeat_layers_store lc args name nsi k h)) ! a = dict_objs h ! a)"
proof (cases args)
  case Nil
  then show ?thesis
    by (simp add: repeat_layers_store_def split: sum.splits)
next
  case (Cons first others)
  show ?thesis
  proof (cases "store_len h first")
    case (Inl e)
    with Cons show ?thesis by (simp add: repeat_layers_store_def)
  next
    case (Inr n)
    with Cons have "repeat_layers_store lc args name nsi k h
                      = repeat_loop_store lc args name nsi [0..<n] k h []"
      by (simp add: repeat_layers_store_def)
    then show ?thesis
      using repeat_loop_store_frame [of lc args name nsi "[0..<n]" k h "[]"] by simp
  qed
qed

text \<open>
  Claim C9. A call of \<^verbatim>\<open>repeat_layers\<close> changes no list object, so every argument list
  holds the same elements in the same order afterwards; and it changes no dictionary
  that existed before the call, so the mapping the caller unpacked is unchanged. The
  name injection and the removal of \<^verbatim>\<open>input_shape\<close> happen in the dictionary the call
  itself created. This holds for every constructor and also when the call raises.
\<close>

theorem repeat_layers_frame:
  "list_objs (snd (call_repeat_layers lc arg_refs name nsi cfg h)) = list_objs h
   \<and> take (length (dict_objs h)) (dict_objs (snd (call_repeat_layers lc arg_refs name nsi cfg h)))
       = dict_objs h
   \<and> (\<forall>r\<in>set arg_refs.
         list_objs (snd (call_repeat_layers lc arg_refs name nsi cfg h)) ! r = list_objs h ! r)
   \<and> (cfg < length (dict_objs h) \<longrightarrow>
         dict_objs (snd (call_repeat_layers lc arg_refs name nsi cfg h)) ! cfg
           = dict_objs h ! cfg)"
proof -
  let ?h' = "snd (call_repeat_layers lc arg_refs name nsi cfg h)"
  have frame: "list_objs ?h' = list_objs h
     \<and> length (dict_objs h) \<le> length (dict_objs ?h')
     \<and> (\<forall>a<length (dict_objs h). dict_objs ?h' ! a = dict_objs h ! a)"
  proof (cases "cfg < length (dict_objs h)
                \<and> (dict_objs h ! cfg) ''name'' = None
                \<and> (dict_objs h ! cfg) ''name_start_index'' = None")
    case False
    then show ?thesis by (auto simp: call_repeat_layers_def)
  next
    case True
    let ?k = "length (dict_objs h)"
    let ?h0 = "h\<lparr>dict_objs := dict_objs h @ [dict_objs h ! cfg]\<rparr>"
    from True have run: "call_repeat_layers lc arg_refs name nsi cfg h
                           = repeat_layers_store lc arg_refs name nsi ?k ?h0"
      by (simp add: call_repeat_layers_def dict_alloc_def)
    from repeat_layers_store_frame [of lc arg_refs name nsi ?k ?h0]
    have l: "list_objs (snd (repeat_layers_store lc arg_refs name nsi ?k ?h0)) = list_objs ?h0"
      and n: "length (dict_objs (snd (repeat_layers_store lc arg_refs name nsi ?k ?h0)))
                = length (dict_objs ?h0)"
      and d: "\<forall>a. a \<noteq> ?k \<longrightarrow>
                dict_objs (snd (repeat_layers_store lc arg_refs name nsi ?k ?h0)) ! a
                  = dict_objs ?h0 ! a"
      by blast+
    from l n d show ?thesis
      by (simp add: run nth_append)
  qed
  then have lists: "list_objs ?h' = list_objs h"
    and len: "length (dict_objs h) \<le> length (dict_objs ?h')"
    and dicts: "\<forall>a<length (dict_objs h). dict_objs ?h' ! a = dict_objs h ! a"
    by blast+
  have tk: "take (length (dict_objs h)) (dict_objs ?h') = dict_objs h"
    using len dicts by (intro nth_equalityI) simp_all
  from lists tk dicts show ?thesis by simp
qed

lemma collect_args_store_eq:
  "\<forall>r\<in>set args. r < length (list_objs h) \<Longrightarrow>
   collect_args_store h args i arg = collect_args (map (\<lambda>r. list_objs h ! r) args) i arg"
  by (induction args arbitrary: arg) (simp_all add: store_index_def split: sum.splits)

lemma repeat_loop_store_result:
  assumes "\<forall>r\<in>set args. r < length (list_objs h)" and "k < length (dict_objs h)"
  shows "fst (repeat_loop_store lc args name nsi is k h acc)
           = repeat_loop lc (map (\<lambda>r. list_objs h ! r) args) name nsi is (dict_objs h ! k) acc"
  using assms
proof (induction "is" arbitrary: h acc)
  case Nil
  show ?case by simp
next
  case (Cons i rest)
  let ?lists = "map (\<lambda>r. list_objs h ! r) args"
  have col: "collect_args_store h args i [] = collect_args ?lists i []"
    by (rule collect_args_store_eq [OF Cons.prems(1)])
  show ?case
  proof (cases "collect_args ?lists i []")
    case (Inl e)
    with col show ?thesis by simp
  next
    case (Inr arg)
    let ?h1 = "dict_update k (set_name name nsi i) h"
    let ?h2 = "dict_update k (\<lambda>d. d(''input_shape'' := None)) ?h1"
    have d1: "dict_objs ?h1 ! k = set_name name nsi i (dict_objs h ! k)"
      using Cons.prems(2) by (simp add: dict_update_def)
    have d2: "dict_objs ?h2 ! k = (set_name name nsi i (dict_objs h ! k))(''input_shape'' := None)"
      using Cons.prems(2) by (simp add: dict_update_def)
    show ?thesis
    proof (cases "lc arg (set_name name nsi i (dict_objs h ! k))")
      case (Inl e)
      with Inr col d1 show ?thesis by simp
    next
      case obj: (Inr layer)
      have refs: "\<forall>r\<in>set args. r < length (list_objs ?h2)"
        using Cons.prems(1) by (simp add: dict_update_frame)
      have k: "k < length (dict_objs ?h2)"
        using Cons.prems(2) by (simp add: dict_update_frame)
      have lists: "map (\<lambda>r. list_objs ?h2 ! r) args = ?lists"
        by (simp add: dict_update_frame)
      from Cons.IH [OF refs k, of "acc @ [layer]"]
      have "fst (repeat_loop_store lc args name nsi rest k ?h2 (acc @ [layer]))
              = repeat_loop lc ?lists name nsi rest
                  ((set_name name nsi i (dict_objs h ! k))(''input_shape'' := None))
                  (acc @ [layer])"
        by (simp only: lists d2)
      with Inr col d1 obj show ?thesis by simp
    qed
  qed
qed

lemma call_repeat_layers_result:
  assumes "cfg < length (dict_objs h)"
    and "(dict_objs h ! cfg) ''name'' = None"
    and "(dict_objs h ! cfg) ''name_start_index'' = None"
    and "\<forall>r\<in>set arg_refs. r < length (list_objs h)"
  shows "fst (call_repeat_layers lc arg_refs name nsi cfg h)
           = repeat_layers lc (map (\<lambda>r. list_objs h ! r) arg_refs) name nsi (dict_objs h ! cfg)"
proof -
  let ?k = "length (dict_objs h)"
  let ?h0 = "h\<lparr>dict_objs := dict_objs h @ [dict_objs h ! cfg]\<rparr>"
  from assms(1,2,3) have run: "\<And>refs. call_repeat_layers lc refs name nsi cfg h
                           = repeat_layers_store lc refs name nsi ?k ?h0"
    by (simp add: call_repeat_layers_def dict_alloc_def)
  show ?thesis
  proof (cases arg_refs)
    case Nil
    with assms(2) show ?thesis
      by (simp add: run repeat_layers_store_def repeat_layers_def split: sum.splits)
  next
    case (Cons first others)
    with assms(4) have first: "first < length (list_objs h)" by simp
    have refs: "\<forall>r\<in>set arg_refs. r < length (list_objs ?h0)" using assms(4) by simp
    have k: "?k < length (dict_objs ?h0)" by simp
    from repeat_loop_store_result [OF refs k, of lc name nsi "[0..<length (list_objs h ! first)]" "[]"]
    have "fst (repeat_loop_store lc arg_refs name nsi [0..<length (list_objs h ! first)] ?k ?h0 [])
            = repeat_loop lc (map (\<lambda>r. list_objs h ! r) arg_refs) name nsi
                [0..<length (list_objs h ! first)] (dict_objs h ! cfg) []"
      by simp
    with Cons first show ?thesis
      by (simp add: run repeat_layers_store_def repeat_layers_def store_len_def)
  qed
qed



theorem repeat_layers_frame_witness:
  "list_objs (snd (call_repeat_layers record_call [0] (Some ''h'') 1 0 store0))
     = [[PInt 10, PInt 20]]
   \<and> (dict_objs (snd (call_repeat_layers record_call [0] (Some ''h'') 1 0 store0)) ! 0)
        ''input_shape'' = Some (PTuple [PInt 8])
   \<and> (dict_objs (snd (call_repeat_layers record_call [0] (Some ''h'') 1 0 store0)) ! 0)
        ''name'' = None
   \<and> (dict_objs (snd (call_repeat_layers record_call [0] (Some ''h'') 1 0 store0)) ! 1)
        ''input_shape'' = None
   \<and> (dict_objs (snd (call_repeat_layers record_call [0] (Some ''h'') 1 0 store0)) ! 1)
        ''name'' = Some (PStr ''h_2'')"
proof -
  let ?h' = "snd (call_repeat_layers record_call [0] (Some ''h'') 1 0 store0)"
  have cfg: "0 < length (dict_objs store0)" by (simp add: store0_def)
  from repeat_layers_frame [of record_call "[0]" "Some ''h''" 1 0 store0] cfg
  have lists: "list_objs ?h' = list_objs store0"
    and dict: "dict_objs ?h' ! 0 = dict_objs store0 ! 0"
    by blast+
  have s2: "str_int 2 = ''2''"
    by (simp add: str_int_def str_nat.simps digit_char_def)
  have own: "(dict_objs ?h' ! 1) ''input_shape'' = None
           \<and> (dict_objs ?h' ! 1) ''name'' = Some (PStr ''h_2'')"
    by (simp add: call_repeat_layers_def dict_alloc_def repeat_layers_store_def store_len_def
          store_index_def py_index_def dict_update_def set_name_def record_call_def store0_def
          s2 Let_def)
  from lists dict own show ?thesis by (simp add: store0_def)
qed

end
